theory Spec2Isabelle
  imports Complex_Main "HOL-Library.Sublist" "HOL-Library.Multiset"
begin

section \<open>The result scorer of Assignment 7 (\<^verbatim>\<open>action.py\<close>, class \<^verbatim>\<open>SearchAction\<close>)\<close>

text \<open>
  The embedding follows \<^verbatim>\<open>SearchAction.process_search_results\<close> line by line.
  Conventions of the model:
  \<^item> a Python \<^verbatim>\<open>float\<close> is a \<^typ>\<open>real\<close>: arithmetic is exact, and the values
    \<^verbatim>\<open>inf\<close> and \<^verbatim>\<open>nan\<close> are not represented;
  \<^item> a Python \<^verbatim>\<open>str\<close> is a \<^typ>\<open>string\<close> whose characters are the code points
    below 256;
  \<^item> an exception is the left summand of \<^typ>\<open>'e + 'a\<close>;
  \<^item> a raw result (a \<^verbatim>\<open>dict\<close> read with \<^verbatim>\<open>result[key]\<close>) is a map from keys to
    values, so that a missing key is a case of the model;
  \<^item> a scored result (a \<^verbatim>\<open>dict\<close> literal with fixed keys) is a record.
\<close>

subsection \<open>Values, errors and objects\<close>

datatype py_error = KeyError string | ZeroDivisionError | TypeError | AttributeError

datatype pyval = PyFloat real | PyStr string

type_synonym raw = "string \<rightharpoonup> pyval"

record search_action =
  min_confidence_threshold :: real
  semantic_weight :: real
  term_weight :: real

text \<open>The dict under the key \<^verbatim>\<open>highlight_instructions\<close>; the field \<open>hl_method\<close> is
  its key \<^verbatim>\<open>method\<close>.\<close>

record highlight =
  hl_method :: string
  confidence_threshold :: real

record scored =
  url :: string
  confidence :: real
  semantic_score :: real
  term_score :: real
  highlight_instructions :: highlight

text \<open>\<^verbatim>\<open>SearchAction.__init__\<close> (lines 2 to 5).\<close>

definition SearchAction_init :: search_action where
  "SearchAction_init =
     \<lparr>min_confidence_threshold = 0.4, semantic_weight = 0.7, term_weight = 0.3\<rparr>"

subsection \<open>Python primitives used by the scorer\<close>

text \<open>\<^verbatim>\<open>d[key]\<close> on a dict: \<^verbatim>\<open>KeyError\<close> when the key is absent.\<close>

definition getitem :: "raw \<Rightarrow> string \<Rightarrow> py_error + pyval" where
  "getitem d k = (case d k of None \<Rightarrow> Inl (KeyError k) | Some v \<Rightarrow> Inr v)"

text \<open>\<^verbatim>\<open>1.0 + v\<close>: a \<^verbatim>\<open>TypeError\<close> when \<^verbatim>\<open>v\<close> is a string.\<close>

definition float_add :: "real \<Rightarrow> pyval \<Rightarrow> py_error + real" where
  "float_add a v = (case v of PyFloat b \<Rightarrow> Inr (a + b) | PyStr _ \<Rightarrow> Inl TypeError)"

text \<open>\<^verbatim>\<open>a / b\<close> on floats: \<^verbatim>\<open>ZeroDivisionError\<close> when \<^verbatim>\<open>b\<close> is zero.\<close>

definition py_truediv :: "real \<Rightarrow> real \<Rightarrow> py_error + real" where
  "py_truediv a b = (if b = 0 then Inl ZeroDivisionError else Inr (a / b))"

text \<open>
  \<^verbatim>\<open>str.isspace\<close> on one character, for code points below 256: the characters on
  which \<^verbatim>\<open>str.split()\<close> separates.
\<close>

definition isspace :: "char \<Rightarrow> bool" where
  "isspace c = (let n = (of_char c :: nat) in
     (9 \<le> n \<and> n \<le> 13) \<or> (28 \<le> n \<and> n \<le> 32) \<or> n = 133 \<or> n = 160)"

text \<open>\<^verbatim>\<open>str.lower\<close>, for code points below 256 (the letters A to Z and the
  capital letters of Latin-1, the multiplication sign 215 excepted).\<close>

definition lower_char :: "char \<Rightarrow> char" where
  "lower_char c = (let n = (of_char c :: nat) in
     if (65 \<le> n \<and> n \<le> 90) \<or> (192 \<le> n \<and> n \<le> 222 \<and> n \<noteq> 215)
     then char_of (n + 32) else c)"

definition lower :: "string \<Rightarrow> string" where
  "lower s = map lower_char s"

text \<open>\<^verbatim>\<open>v.lower()\<close>: an \<^verbatim>\<open>AttributeError\<close> when \<^verbatim>\<open>v\<close> is a float.\<close>

definition str_lower :: "pyval \<Rightarrow> py_error + string" where
  "str_lower v = (case v of PyStr s \<Rightarrow> Inr (lower s) | PyFloat _ \<Rightarrow> Inl AttributeError)"

text \<open>\<^verbatim>\<open>s.replace(old, new)\<close> where \<^verbatim>\<open>old\<close> and \<^verbatim>\<open>new\<close> are single characters,
  the only use the scorer makes of it.\<close>

definition replace :: "char \<Rightarrow> char \<Rightarrow> string \<Rightarrow> string" where
  "replace old new s = map (\<lambda>c. if c = old then new else c) s"

text \<open>
  \<^verbatim>\<open>s.split()\<close>: the maximal runs of characters that are not whitespace, in order;
  no empty piece. The second argument is the piece being read.
\<close>

fun split_ws_from :: "string \<Rightarrow> string \<Rightarrow> string list" where
  "split_ws_from [] cur = (if cur = [] then [] else [cur])"
| "split_ws_from (c # cs) cur =
     (if isspace c then (if cur = [] then split_ws_from cs [] else cur # split_ws_from cs [])
      else split_ws_from cs (cur @ [c]))"

definition split_ws :: "string \<Rightarrow> string list" where
  "split_ws s = split_ws_from s []"

text \<open>
  \<^verbatim>\<open>s.split(sep)\<close> for a separator of one character: every occurrence separates,
  empty pieces are kept, and the empty string gives one empty piece.
\<close>

fun split_on_from :: "char \<Rightarrow> string \<Rightarrow> string \<Rightarrow> string list" where
  "split_on_from sep [] cur = [cur]"
| "split_on_from sep (c # cs) cur =
     (if c = sep then cur # split_on_from sep cs [] else split_on_from sep cs (cur @ [c]))"

definition split_on :: "char \<Rightarrow> string \<Rightarrow> string list" where
  "split_on sep s = split_on_from sep s []"

text \<open>
  A Python \<^verbatim>\<open>set\<close> of strings is a list without duplicates; the scorer only counts
  over its sets, so the iteration order does not matter. \<^verbatim>\<open>set(xs)\<close> and
  \<^verbatim>\<open>s.update(xs)\<close>:
\<close>

definition py_set :: "'a list \<Rightarrow> 'a list" where
  "py_set xs = remdups xs"

definition set_update :: "'a list \<Rightarrow> 'a list \<Rightarrow> 'a list" where
  "set_update s xs = remdups (s @ xs)"

text \<open>\<^verbatim>\<open>a in b\<close> on strings: \<^verbatim>\<open>a\<close> occurs in \<^verbatim>\<open>b\<close> as a contiguous piece.\<close>

definition str_contains :: "string \<Rightarrow> string \<Rightarrow> bool" where
  "str_contains b a = sublist a b"

text \<open>
  \<^verbatim>\<open>round(x, ndigits)\<close> on a float: the nearest multiple of \<open>10\<^sup>-\<^sup>n\<close>, a tie going
  to the even one.
\<close>

definition round_half_even :: "real \<Rightarrow> int" where
  "round_half_even y = (let f = \<lfloor>y\<rfloor>; r = y - of_int f in
     if r < 1 / 2 then f else if 1 / 2 < r then f + 1 else if even f then f else f + 1)"

definition py_round :: "real \<Rightarrow> nat \<Rightarrow> real" where
  "py_round x ndigits = of_int (round_half_even (x * 10 ^ ndigits)) / 10 ^ ndigits"

text \<open>
  \<^verbatim>\<open>xs.sort(key=key, reverse=True)\<close>: a stable sort in descending order of the key;
  CPython reverses the list, sorts it stably in ascending order and reverses it
  again, so that elements with equal keys keep their order.
\<close>

definition sort_reverse :: "('a \<Rightarrow> real) \<Rightarrow> 'a list \<Rightarrow> 'a list" where
  "sort_reverse key xs = rev (sort_key key (rev xs))"

subsection \<open>The body of the loop (lines 17 to 48)\<close>

text \<open>Line 17.\<close>

definition semantic_similarity :: "pyval \<Rightarrow> py_error + real" where
  "semantic_similarity distance =
     (case float_add 1 distance of Inl e \<Rightarrow> Inl e | Inr x \<Rightarrow> py_truediv 1 x)"

text \<open>Line 20.\<close>

definition query_terms_of :: "pyval \<Rightarrow> py_error + string list" where
  "query_terms_of query =
     (case str_lower query of Inl e \<Rightarrow> Inl e | Inr s \<Rightarrow> Inr (py_set (split_ws s)))"

text \<open>Lines 21 and 22.\<close>

definition url_terms_of :: "pyval \<Rightarrow> py_error + string list" where
  "url_terms_of u =
     (case str_lower u of Inl e \<Rightarrow> Inl e
      | Inr s \<Rightarrow>
          let t = replace CHR ''_'' CHR '' '' (replace CHR ''-'' CHR '' '' s)
          in Inr (set_update (py_set (split_on CHR ''/'' t)) (split_ws t)))"

text \<open>Lines 25 and 26.\<close>

definition exact_matches :: "string list \<Rightarrow> string list \<Rightarrow> int" where
  "exact_matches query_terms url_terms =
     sum_list [1. term \<leftarrow> query_terms, list_ex (\<lambda>url_term. term = url_term) url_terms]"

definition partial_matches :: "string list \<Rightarrow> string list \<Rightarrow> int" where
  "partial_matches query_terms url_terms =
     sum_list [1. term \<leftarrow> query_terms,
                  list_ex (\<lambda>url_term. str_contains url_term term) url_terms]"

text \<open>Line 29: the division is evaluated only when the set of query terms is not empty.\<close>

definition term_match_score :: "string list \<Rightarrow> string list \<Rightarrow> py_error + real" where
  "term_match_score query_terms url_terms =
     (if query_terms \<noteq> []
      then py_truediv (of_int (exact_matches query_terms url_terms)
                        + 0.5 * of_int (partial_matches query_terms url_terms))
                      (of_nat (length query_terms))
      else Inr 0)"

text \<open>Lines 32 and 35.\<close>

definition blend :: "search_action \<Rightarrow> real \<Rightarrow> real \<Rightarrow> real" where
  "blend self sem tms = sem * semantic_weight self + tms * term_weight self"

definition clamp01 :: "real \<Rightarrow> real" where
  "clamp01 c = max 0 (min 1 c)"

text \<open>
  Lines 17 to 29, which do not read \<open>self\<close>: the url, the semantic similarity and
  the term match score of a raw result. The keys are read in the order of the
  source: \<^verbatim>\<open>distance\<close>, \<^verbatim>\<open>query\<close>, \<^verbatim>\<open>url\<close>. The value under \<^verbatim>\<open>url\<close> is a string
  whenever line 21 has not raised.
\<close>

definition url_string :: "pyval \<Rightarrow> string" where
  "url_string v = (case v of PyStr s \<Rightarrow> s | PyFloat _ \<Rightarrow> [])"

definition read_scores :: "raw \<Rightarrow> py_error + string \<times> real \<times> real" where
  "read_scores result =
     (case getitem result ''distance'' of Inl e \<Rightarrow> Inl e | Inr d \<Rightarrow>
      case semantic_similarity d of Inl e \<Rightarrow> Inl e | Inr sem \<Rightarrow>
      case getitem result ''query'' of Inl e \<Rightarrow> Inl e | Inr q \<Rightarrow>
      case query_terms_of q of Inl e \<Rightarrow> Inl e | Inr query_terms \<Rightarrow>
      case getitem result ''url'' of Inl e \<Rightarrow> Inl e | Inr u \<Rightarrow>
      case url_terms_of u of Inl e \<Rightarrow> Inl e | Inr url_terms \<Rightarrow>
      case term_match_score query_terms url_terms of Inl e \<Rightarrow> Inl e | Inr tms \<Rightarrow>
        Inr (url_string u, sem, tms))"

text \<open>
  The local variables of one iteration after line 35: the url, the semantic
  similarity, the term match score and the clamped confidence.
\<close>

record scores =
  sc_url :: string
  sc_semantic :: real
  sc_term_match :: real
  sc_confidence :: real

definition compute_scores :: "search_action \<Rightarrow> raw \<Rightarrow> py_error + scores" where
  "compute_scores self result =
     (case read_scores result of
        Inl e \<Rightarrow> Inl e
      | Inr (u, sem, tms) \<Rightarrow>
          Inr \<lparr>sc_url = u, sc_semantic = sem, sc_term_match = tms,
               sc_confidence = clamp01 (blend self sem tms)\<rparr>)"

text \<open>Lines 38 to 48: the record appended when the threshold is met.\<close>

definition scored_of :: "scores \<Rightarrow> scored" where
  "scored_of s =
     \<lparr>url = sc_url s,
      confidence = py_round (sc_confidence s) 3,
      semantic_score = py_round (sc_semantic s) 3,
      term_score = py_round (sc_term_match s) 3,
      highlight_instructions =
        \<lparr>hl_method = ''semantic_highlight'', confidence_threshold = sc_confidence s\<rparr>\<rparr>"

definition keeps :: "search_action \<Rightarrow> scores \<Rightarrow> bool" where
  "keeps self s = (min_confidence_threshold self \<le> sc_confidence s)"

definition score_result :: "search_action \<Rightarrow> raw \<Rightarrow> py_error + scored option" where
  "score_result self result =
     (case compute_scores self result of Inl e \<Rightarrow> Inl e
      | Inr s \<Rightarrow> Inr (if keeps self s then Some (scored_of s) else None))"

subsection \<open>The loop and the function (lines 7 to 53)\<close>

text \<open>The \<^verbatim>\<open>for\<close> loop of line 15, with \<^verbatim>\<open>processed_results\<close> as accumulator; an
  exception leaves the loop at once.\<close>

fun score_loop :: "search_action \<Rightarrow> raw list \<Rightarrow> scored list \<Rightarrow> py_error + scored list" where
  "score_loop self [] processed_results = Inr processed_results"
| "score_loop self (result # rest) processed_results =
     (case score_result self result of
        Inl e \<Rightarrow> Inl e
      | Inr None \<Rightarrow> score_loop self rest processed_results
      | Inr (Some s) \<Rightarrow> score_loop self rest (processed_results @ [s]))"

definition process_search_results :: "search_action \<Rightarrow> raw list \<Rightarrow> py_error + scored list" where
  "process_search_results self results =
     (if results = [] then Inr []
      else case score_loop self results [] of
             Inl e \<Rightarrow> Inl e
           | Inr processed_results \<Rightarrow> Inr (sort_reverse confidence processed_results))"

subsection \<open>The records the data model admits\<close>

text \<open>
  The data model gives a raw result the keys \<^verbatim>\<open>url\<close> (a string), \<^verbatim>\<open>distance\<close>
  (a float, not negative) and \<^verbatim>\<open>query\<close> (a string). \<open>well_typed\<close> says that
  every key that is present has a value of its type; \<open>has_keys\<close> that the three
  keys are present.
\<close>

definition well_typed :: "raw \<Rightarrow> bool" where
  "well_typed r =
     ((case r ''distance'' of None \<Rightarrow> True | Some (PyFloat d) \<Rightarrow> 0 \<le> d | Some (PyStr _) \<Rightarrow> False)
      \<and> (case r ''query'' of None \<Rightarrow> True | Some (PyFloat _) \<Rightarrow> False | Some (PyStr _) \<Rightarrow> True)
      \<and> (case r ''url'' of None \<Rightarrow> True | Some (PyFloat _) \<Rightarrow> False | Some (PyStr _) \<Rightarrow> True))"

definition has_keys :: "raw \<Rightarrow> bool" where
  "has_keys r = (r ''distance'' \<noteq> None \<and> r ''query'' \<noteq> None \<and> r ''url'' \<noteq> None)"

subsection \<open>Terms and match counts in the words of the specification\<close>







subsection \<open>The objects of a call\<close>

text \<open>
  To speak about what a call writes, the objects are put in a store: the object
  with address \<open>a\<close> is the element \<open>a\<close> of the store, and a new object takes the
  next free address. The objects of a call are the \<^verbatim>\<open>SearchAction\<close> object with its
  three attributes, lists (of addresses), the dicts of the raw results and the
  dicts that line 39 builds.
\<close>

type_synonym addr = nat

datatype pyobj =
    Instance search_action
  | ListObj "addr list"
  | RawDict raw
  | ScoredDict scored

type_synonym store = "pyobj list"

definition object_at :: "store \<Rightarrow> addr \<Rightarrow> pyobj option" where
  "object_at h a = (if a < length h then Some (h ! a) else None)"

text \<open>A list display \<^verbatim>\<open>[]\<close> or a dict display \<^verbatim>\<open>{...}\<close>: a new object.\<close>

definition new_object :: "pyobj \<Rightarrow> store \<Rightarrow> addr \<times> store" where
  "new_object ob h = (length h, h @ [ob])"

text \<open>\<^verbatim>\<open>l.append(x)\<close>.\<close>

definition list_append :: "addr \<Rightarrow> addr \<Rightarrow> store \<Rightarrow> py_error + store" where
  "list_append l x h =
     (case object_at h l of
        Some (ListObj xs) \<Rightarrow> Inr (h[l := ListObj (xs @ [x])])
      | _ \<Rightarrow> Inl AttributeError)"

text \<open>
  \<^verbatim>\<open>l.sort(key=lambda x: x['confidence'], reverse=True)\<close>: the key of every element
  is computed first, in order, then the elements are sorted by their keys. The
  list sorted at line 51 is the new one, which holds scored dicts only (lemma
  \<open>store_loop_run\<close>); an element of another kind is reported as a \<^verbatim>\<open>TypeError\<close>.
\<close>

definition confidence_key :: "store \<Rightarrow> addr \<Rightarrow> py_error + real" where
  "confidence_key h x =
     (case object_at h x of
        Some (ScoredDict s) \<Rightarrow> Inr (confidence s)
      | _ \<Rightarrow> Inl TypeError)"

fun confidence_keys :: "store \<Rightarrow> addr list \<Rightarrow> py_error + real list" where
  "confidence_keys h [] = Inr []"
| "confidence_keys h (x # xs) =
     (case confidence_key h x of
        Inl e \<Rightarrow> Inl e
      | Inr k \<Rightarrow>
          (case confidence_keys h xs of Inl e \<Rightarrow> Inl e | Inr ks \<Rightarrow> Inr (k # ks)))"

definition list_sort_confidence :: "addr \<Rightarrow> store \<Rightarrow> py_error + store" where
  "list_sort_confidence l h =
     (case object_at h l of
        Some (ListObj xs) \<Rightarrow>
          (case confidence_keys h xs of
             Inl e \<Rightarrow> Inl e
           | Inr ks \<Rightarrow> Inr (h[l := ListObj (map snd (sort_reverse fst (zip ks xs)))]))
      | _ \<Rightarrow> Inl AttributeError)"

text \<open>
  One iteration of the loop on the store, in the order of the source: \<open>result\<close> is
  read (lines 17 to 29; subscripting an object that is not a dict is a
  \<^verbatim>\<open>TypeError\<close>, and a scored dict has no key \<^verbatim>\<open>distance\<close>), then the attributes of
  \<open>self\<close> (lines 32 and 38; an object that is not a \<^verbatim>\<open>SearchAction\<close> has none), and
  when the threshold is met a new dict is built and appended to the list
  \<open>processed_results\<close>. Nothing else is written.
\<close>

definition store_iteration :: "addr \<Rightarrow> addr \<Rightarrow> addr \<Rightarrow> store \<Rightarrow> py_error option \<times> store" where
  "store_iteration self result processed_results h =
     (case object_at h result of
        Some (RawDict d) \<Rightarrow>
          (case read_scores d of
             Inl e \<Rightarrow> (Some e, h)
           | Inr _ \<Rightarrow>
               (case object_at h self of
                  Some (Instance sa) \<Rightarrow>
                    (case score_result sa d of
                       Inl e \<Rightarrow> (Some e, h)
                     | Inr None \<Rightarrow> (None, h)
                     | Inr (Some s) \<Rightarrow>
                         (let (a, h1) = new_object (ScoredDict s) h
                          in case list_append processed_results a h1 of
                               Inl e \<Rightarrow> (Some e, h1)
                             | Inr h2 \<Rightarrow> (None, h2)))
                | _ \<Rightarrow> (Some AttributeError, h)))
      | Some (ScoredDict _) \<Rightarrow> (Some (KeyError ''distance''), h)
      | _ \<Rightarrow> (Some TypeError, h))"

text \<open>
  The loop runs over the elements that the list \<open>results\<close> has at line 15; the
  only list written during the loop is the new one of line 9.
\<close>

fun store_loop :: "addr \<Rightarrow> addr list \<Rightarrow> addr \<Rightarrow> store \<Rightarrow> py_error option \<times> store" where
  "store_loop self [] processed_results h = (None, h)"
| "store_loop self (result # rest) processed_results h =
     (case store_iteration self result processed_results h of
        (Some e, h1) \<Rightarrow> (Some e, h1)
      | (None, h1) \<Rightarrow> store_loop self rest processed_results h1)"

text \<open>
  Lines 9 to 53 on the store: the value returned is the address of the new list.
  Line 11 returns it at once when \<open>results\<close> is an empty list (or an empty dict);
  iterating over an object that is not a list ends in a \<^verbatim>\<open>TypeError\<close>, at line 15
  or, for the keys of a dict, at line 17.
\<close>

definition process_search_results_store ::
    "addr \<Rightarrow> addr \<Rightarrow> store \<Rightarrow> (py_error + addr) \<times> store" where
  "process_search_results_store self results h =
     (let (processed_results, h1) = new_object (ListObj []) h
      in case object_at h1 results of
           Some (ListObj rs) \<Rightarrow>
             if rs = [] then (Inr processed_results, h1)
             else (case store_loop self rs processed_results h1 of
                     (Some e, h2) \<Rightarrow> (Inl e, h2)
                   | (None, h2) \<Rightarrow>
                       (case list_sort_confidence processed_results h2 of
                          Inl e \<Rightarrow> (Inl e, h2)
                        | Inr h3 \<Rightarrow> (Inr processed_results, h3)))
         | Some (RawDict d) \<Rightarrow>
             if d = Map.empty then (Inr processed_results, h1) else (Inl TypeError, h1)
         | _ \<Rightarrow> (Inl TypeError, h1))"

text \<open>
  The shape of the store during a call that started in the store \<open>h0\<close>: the objects
  of \<open>h0\<close>, then the new list, then the dicts built so far, which the new list
  holds in the order of their addresses.
\<close>

definition addrs_from :: "addr \<Rightarrow> nat \<Rightarrow> addr list" where
  "addrs_from b n = [b ..< b + n]"

definition grown :: "store \<Rightarrow> scored list \<Rightarrow> store" where
  "grown h0 acc =
     h0 @ ListObj (addrs_from (Suc (length h0)) (length acc)) # map ScoredDict acc"

section \<open>Auxiliary facts\<close>

subsection \<open>Rounding and clamping\<close>

lemma round_half_even_of_int: "round_half_even (of_int k) = k"
  by (simp add: round_half_even_def)

lemma round_half_even_bounds: "\<lfloor>y\<rfloor> \<le> round_half_even y \<and> round_half_even y \<le> \<lfloor>y\<rfloor> + 1"
  by (simp add: round_half_even_def Let_def)

lemma round_half_even_mono:
  assumes "x \<le> y"
  shows "round_half_even x \<le> round_half_even y"
proof (cases "\<lfloor>x\<rfloor> = \<lfloor>y\<rfloor>")
  case True
  with assms show ?thesis
    by (auto simp: round_half_even_def Let_def)
next
  case False
  from assms have "\<lfloor>x\<rfloor> \<le> \<lfloor>y\<rfloor>" by (rule floor_mono)
  with False have "\<lfloor>x\<rfloor> + 1 \<le> \<lfloor>y\<rfloor>" by simp
  with round_half_even_bounds [of x] round_half_even_bounds [of y] show ?thesis
    by linarith
qed

lemma py_round_mono: "x \<le> y \<Longrightarrow> py_round x n \<le> py_round y n"
  unfolding py_round_def
  by (intro divide_right_mono of_int_le_iff [THEN iffD2] round_half_even_mono mult_right_mono) simp_all

lemma py_round_of_int_div: "py_round (of_int k / 10 ^ n) n = of_int k / 10 ^ n"
  by (simp add: py_round_def round_half_even_of_int)

lemma py_round_0: "py_round 0 n = 0"
  using py_round_of_int_div [of 0 n] by simp


lemma py_round_3_2: "py_round (3 / 2) 3 = 3 / 2"
  using py_round_of_int_div [of 1500 3] by simp

lemma py_round_2_5: "py_round (2 / 5) 3 = 2 / 5"
  using py_round_of_int_div [of 400 3] by simp



subsection \<open>Counting matches\<close>

lemma exact_matches_count:
  "exact_matches Q U = int (length (filter (\<lambda>t. t \<in> set U) Q))"
  by (induction Q) (simp_all add: exact_matches_def list_ex_iff)

lemma partial_matches_count:
  "partial_matches Q U = int (length (filter (\<lambda>t. \<exists>u\<in>set U. sublist t u) Q))"
  by (induction Q) (simp_all add: partial_matches_def list_ex_iff str_contains_def)

lemma exact_le_partial: "exact_matches Q U \<le> partial_matches Q U"
  unfolding exact_matches_count partial_matches_count
  by (induction Q) auto

lemma partial_le_length: "partial_matches Q U \<le> int (length Q)"
  unfolding partial_matches_count by simp

lemma exact_matches_nonneg: "0 \<le> exact_matches Q U"
  unfolding exact_matches_count by simp

lemma term_match_score_total:
  "\<exists>t. term_match_score Q U = Inr t \<and> 0 \<le> t \<and> t \<le> 3 / 2"
proof (cases "Q = []")
  case True
  then show ?thesis by (simp add: term_match_score_def)
next
  case False
  let ?e = "exact_matches Q U" and ?p = "partial_matches Q U"
  let ?n = "real (length Q)"
  from False have n: "0 < ?n" by simp
  have e: "0 \<le> real_of_int ?e" "real_of_int ?e \<le> real_of_int ?p"
    using exact_matches_nonneg [of Q U] exact_le_partial [of Q U] by simp_all
  have p: "real_of_int ?p \<le> ?n"
    using partial_le_length [of Q U] by (metis of_int_le_iff of_int_of_nat_eq)
  have "0 \<le> (real_of_int ?e + 0.5 * real_of_int ?p) / ?n"
    using e n by simp
  moreover have "(real_of_int ?e + 0.5 * real_of_int ?p) / ?n \<le> 3 / 2"
    using e p n by (simp add: divide_le_eq)
  ultimately show ?thesis
    using False by (simp add: term_match_score_def py_truediv_def)
qed

subsection \<open>One iteration, the loop and the sort\<close>

lemma compute_scores_Inr_iff:
  "compute_scores self r = Inr sc \<longleftrightarrow>
     (\<exists>d q u tms. r ''distance'' = Some (PyFloat d) \<and> 1 + d \<noteq> 0
        \<and> r ''query'' = Some (PyStr q) \<and> r ''url'' = Some (PyStr u)
        \<and> query_terms_of (PyStr q) = Inr (py_set (split_ws (lower q)))
        \<and> term_match_score (py_set (split_ws (lower q)))
             (set_update (py_set (split_on CHR ''/'' (replace CHR ''_'' CHR '' '' (replace CHR ''-'' CHR '' '' (lower u)))))
                (split_ws (replace CHR ''_'' CHR '' '' (replace CHR ''-'' CHR '' '' (lower u))))) = Inr tms
        \<and> sc = \<lparr>sc_url = u, sc_semantic = 1 / (1 + d), sc_term_match = tms,
                 sc_confidence = clamp01 (blend self (1 / (1 + d)) tms)\<rparr>)"
  unfolding compute_scores_def read_scores_def getitem_def semantic_similarity_def float_add_def
    py_truediv_def query_terms_of_def url_terms_of_def str_lower_def url_string_def Let_def
  by (auto split: option.splits sum.splits pyval.splits if_splits)

lemma score_loop_Inr:
  "score_loop self rs acc = Inr out \<Longrightarrow>
     \<exists>ss. map (compute_scores self) rs = map Inr ss
        \<and> out = acc @ map scored_of (filter (keeps self) ss)"
proof (induction rs arbitrary: acc)
  case Nil
  then show ?case by simp
next
  case (Cons r rs)
  show ?case
  proof (cases "compute_scores self r")
    case (Inl e)
    with Cons.prems show ?thesis by (simp add: score_result_def)
  next
    case (Inr s)
    show ?thesis
    proof (cases "keeps self s")
      case True
      with Inr Cons.prems have "score_loop self rs (acc @ [scored_of s]) = Inr out"
        by (simp add: score_result_def)
      from Cons.IH [OF this] obtain ss where
        "map (compute_scores self) rs = map Inr ss"
        "out = (acc @ [scored_of s]) @ map scored_of (filter (keeps self) ss)" by blast
      with Inr True show ?thesis
        by (intro exI [of _ "s # ss"]) simp
    next
      case False
      with Inr Cons.prems have "score_loop self rs acc = Inr out"
        by (simp add: score_result_def)
      from Cons.IH [OF this] obtain ss where
        "map (compute_scores self) rs = map Inr ss"
        "out = acc @ map scored_of (filter (keeps self) ss)" by blast
      with Inr False show ?thesis
        by (intro exI [of _ "s # ss"]) simp
    qed
  qed
qed


lemma score_loop_total:
  "\<forall>r\<in>set rs. \<exists>s. compute_scores self r = Inr s \<Longrightarrow> \<exists>out. score_loop self rs acc = Inr out"
  by (induction rs arbitrary: acc) (auto simp: score_result_def)

lemma process_search_results_Inr:
  assumes "process_search_results self results = Inr out"
  shows "\<exists>ss. map (compute_scores self) results = map Inr ss
           \<and> out = sort_reverse confidence (map scored_of (filter (keeps self) ss))"
proof (cases "results = []")
  case True
  with assms show ?thesis by (simp add: process_search_results_def sort_reverse_def)
next
  case False
  with assms obtain p where p: "score_loop self results [] = Inr p"
    and out: "out = sort_reverse confidence p"
    by (auto simp: process_search_results_def split: sum.splits)
  from score_loop_Inr [OF p] out show ?thesis by auto
qed


lemma set_sort_reverse: "set (sort_reverse key xs) = set xs"
  by (simp add: sort_reverse_def)

lemma mset_sort_reverse: "mset (sort_reverse key xs) = mset xs"
  by (simp add: sort_reverse_def)

lemma sorted_sort_reverse: "sorted_wrt (\<lambda>a b. key b \<le> key a) (sort_reverse key xs)"
proof -
  have "sorted (map key (sort_key key (rev xs)))" by (rule sorted_sort_key)
  then have "sorted_wrt (\<lambda>a b. key a \<le> key b) (sort_key key (rev xs))"
    by (simp add: sorted_map)
  then show ?thesis
    by (simp add: sort_reverse_def sorted_wrt_rev)
qed

lemma sort_reverse_stable:
  "filter (\<lambda>y. key y = k) (sort_reverse key xs) = filter (\<lambda>y. key y = k) xs"
  by (simp add: sort_reverse_def rev_filter [symmetric] sort_key_stable)

lemma process_search_results_member:
  assumes "process_search_results self results = Inr out" and "s \<in> set out"
  shows "\<exists>r\<in>set results. \<exists>sc. compute_scores self r = Inr sc \<and> keeps self sc \<and> s = scored_of sc"
proof -
  from process_search_results_Inr [OF assms(1)] obtain ss where
    ss: "map (compute_scores self) results = map Inr ss"
    and out: "out = sort_reverse confidence (map scored_of (filter (keeps self) ss))"
    by blast
  from assms(2) out obtain sc where sc: "sc \<in> set ss" "keeps self sc" "s = scored_of sc"
    by (auto simp: set_sort_reverse)
  from sc(1) have "Inr sc \<in> set (map (compute_scores self) results)"
    unfolding ss by simp
  then obtain r where "r \<in> set results" "compute_scores self r = Inr sc"
    by auto
  with sc show ?thesis by blast
qed

lemma compute_scores_term_match:
  assumes "compute_scores self r = Inr sc"
  shows "0 \<le> sc_term_match sc \<and> sc_term_match sc \<le> 3 / 2"
proof -
  from assms obtain Q U where "term_match_score Q U = Inr (sc_term_match sc)"
    unfolding compute_scores_Inr_iff by auto
  with term_match_score_total [of Q U] show ?thesis by simp
qed


subsection \<open>Records with and without their keys\<close>





lemma isspace_lower_char: "isspace c \<Longrightarrow> lower_char c = c"
  by (auto simp: isspace_def lower_char_def Let_def)

lemma split_ws_from_spaces: "\<forall>c\<in>set s. isspace c \<Longrightarrow> split_ws_from s [] = []"
  by (induction s) simp_all

lemma split_ws_lower_spaces: "\<forall>c\<in>set q. isspace c \<Longrightarrow> split_ws (lower q) = []"
proof -
  assume h: "\<forall>c\<in>set q. isspace c"
  then have "lower q = q"
    by (simp add: lower_def isspace_lower_char map_idI)
  with h show ?thesis by (simp add: split_ws_def split_ws_from_spaces)
qed

lemma term_match_score_not_Inl: "term_match_score Q U \<noteq> Inl e"
  using term_match_score_total [of Q U] by auto

lemma compute_scores_zero_division:
  "compute_scores self r = Inl ZeroDivisionError \<Longrightarrow> r ''distance'' = Some (PyFloat (- 1))"
  unfolding compute_scores_def read_scores_def getitem_def semantic_similarity_def float_add_def
    py_truediv_def query_terms_of_def url_terms_of_def str_lower_def Let_def
  by (auto simp: term_match_score_not_Inl split: option.splits sum.splits pyval.splits if_splits)

lemma well_typed_compute_scores:
  assumes "well_typed r" and "has_keys r"
  shows "\<exists>sc. compute_scores self r = Inr sc"
proof -
  from assms obtain d q u where
    "r ''distance'' = Some (PyFloat d)" "0 \<le> d" "r ''query'' = Some (PyStr q)"
    "r ''url'' = Some (PyStr u)"
    by (auto simp: well_typed_def has_keys_def split: option.splits pyval.splits)
  moreover obtain tms where "term_match_score (py_set (split_ws (lower q)))
             (set_update (py_set (split_on CHR ''/'' (replace CHR ''_'' CHR '' '' (replace CHR ''-'' CHR '' '' (lower u)))))
                (split_ws (replace CHR ''_'' CHR '' '' (replace CHR ''-'' CHR '' '' (lower u))))) = Inr tms"
    using term_match_score_total by blast
  ultimately show ?thesis
    unfolding compute_scores_Inr_iff
    by (simp add: query_terms_of_def str_lower_def)
qed



text \<open>Outside the data model: a distance of \<open>-1\<close> makes line 17 divide by zero.\<close>

lemma distance_minus_one_raises:
  "process_search_results SearchAction_init
     [[''distance'' \<mapsto> PyFloat (- 1), ''query'' \<mapsto> PyStr ''a'', ''url'' \<mapsto> PyStr ''a'']]
   = Inl ZeroDivisionError"
  by code_simp

subsection \<open>What the two splits return\<close>














text \<open>The URL of the specification's example: \<^verbatim>\<open>machine\<close> is not one of its terms.\<close>

lemma url_terms_example:
  "url_terms_of (PyStr ''site.com/blog/machine-learning-basics'')
   = Inr [''site.com'', ''blog'', ''machine learning basics'',
          ''site.com/blog/machine'', ''learning'', ''basics'']"
  by code_simp

subsection \<open>The call on the store\<close>

lemma store_iteration_frame:
  assumes "store_iteration self r l h = (eo, h')" and "n \<le> l" and "n \<le> length h"
  shows "take n h' = take n h \<and> length h \<le> length h'"
  using assms
  unfolding store_iteration_def new_object_def list_append_def
  by (auto split: option.splits pyobj.splits sum.splits)

lemma store_loop_frame:
  "store_loop self rs l h = (eo, h') \<Longrightarrow> n \<le> l \<Longrightarrow> n \<le> length h
     \<Longrightarrow> take n h' = take n h \<and> length h \<le> length h'"
proof (induction rs arbitrary: h)
  case Nil
  then show ?case by simp
next
  case (Cons r rs)
  obtain e1 h1 where it: "store_iteration self r l h = (e1, h1)"
    by (cases "store_iteration self r l h")
  from store_iteration_frame [OF it Cons.prems(2,3)]
  have f1: "take n h1 = take n h" "length h \<le> length h1" by simp_all
  show ?case
  proof (cases e1)
    case None
    with it Cons.prems(1) have "store_loop self rs l h1 = (eo, h')" by simp
    from Cons.IH [OF this Cons.prems(2)] f1 Cons.prems(3) show ?thesis by simp
  next
    case (Some e)
    with it Cons.prems(1) have "h' = h1" by simp
    with f1 show ?thesis by simp
  qed
qed

lemma list_sort_confidence_frame:
  "list_sort_confidence l h = Inr h' \<Longrightarrow> n \<le> l \<Longrightarrow> take n h' = take n h"
  unfolding list_sort_confidence_def
  by (auto split: option.splits pyobj.splits sum.splits)

lemma process_search_results_store_frame:
  assumes "process_search_results_store self results h = (res, h')"
  shows "take (length h) h' = h"
proof -
  let ?h1 = "h @ [ListObj []]"
  have base: "take (length h) ?h1 = h" by simp
  have loop: "take (length h) h2 = h"
    if "store_loop self rs (length h) ?h1 = (eo, h2)" for rs eo h2
    using store_loop_frame [OF that, of "length h"] by simp
  have sort: "take (length h) h3 = h"
    if "store_loop self rs (length h) ?h1 = (eo, h2)"
      and "list_sort_confidence (length h) h2 = Inr h3" for rs eo h2 h3
    using list_sort_confidence_frame [OF that(2), of "length h"] loop [OF that(1)] by simp
  from assms show ?thesis
    unfolding process_search_results_store_def new_object_def
    by (auto simp: loop sort split: option.splits pyobj.splits if_splits prod.splits sum.splits)
qed

lemma addrs_from_snoc: "addrs_from b n @ [b + n] = addrs_from b (Suc n)"
  by (simp add: addrs_from_def)

lemma length_grown: "length (grown h0 acc) = Suc (length h0) + length acc"
  by (simp add: grown_def)

lemma object_at_append_old: "a < length h0 \<Longrightarrow> object_at (h0 @ ext) a = object_at h0 a"
  by (simp add: object_at_def nth_append)

lemma object_at_old: "object_at h0 a = Some ob \<Longrightarrow> object_at (h0 @ ext) a = Some ob"
  by (auto simp: object_at_def nth_append split: if_splits)

lemma grown_snoc:
  "(grown h0 acc @ [ScoredDict s])[length h0 :=
      ListObj (addrs_from (Suc (length h0)) (length acc) @ [length (grown h0 acc)])]
   = grown h0 (acc @ [s])"
  unfolding length_grown addrs_from_snoc
  by (simp add: grown_def list_update_append)

lemma object_at_grown_list:
  "object_at (grown h0 acc @ ext) (length h0)
     = Some (ListObj (addrs_from (Suc (length h0)) (length acc)))"
  by (simp add: object_at_def grown_def nth_append)

lemma score_result_read_scores:
  "score_result sa d =
     (case read_scores d of
        Inl e \<Rightarrow> Inl e
      | Inr (u, sem, tms) \<Rightarrow>
          Inr (let sc = \<lparr>sc_url = u, sc_semantic = sem, sc_term_match = tms,
                          sc_confidence = clamp01 (blend sa sem tms)\<rparr>
               in if keeps sa sc then Some (scored_of sc) else None))"
  by (simp add: score_result_def compute_scores_def split: sum.splits prod.splits)

lemma store_iteration_run:
  assumes "object_at h0 self = Some (Instance sa)" and "object_at h0 r = Some (RawDict d)"
  shows "store_iteration self r (length h0) (grown h0 acc) =
           (case score_result sa d of
              Inl e \<Rightarrow> (Some e, grown h0 acc)
            | Inr None \<Rightarrow> (None, grown h0 acc)
            | Inr (Some s) \<Rightarrow> (None, grown h0 (acc @ [s])))"
proof -
  have s: "object_at (grown h0 acc) self = Some (Instance sa)"
    and r: "object_at (grown h0 acc) r = Some (RawDict d)"
    using assms unfolding grown_def by (simp_all add: object_at_old)
  show ?thesis
  proof (cases "read_scores d")
    case (Inl e)
    then have "score_result sa d = Inl e"
      by (simp add: score_result_read_scores)
    with Inl show ?thesis
      unfolding store_iteration_def r by simp
  next
    case (Inr x)
    then show ?thesis
      unfolding store_iteration_def s r new_object_def list_append_def
      by (simp add: object_at_grown_list grown_snoc split: sum.splits option.splits)
  qed
qed

lemma store_loop_run:
  assumes "object_at h0 self = Some (Instance sa)"
    and "list_all2 (\<lambda>r d. object_at h0 r = Some (RawDict d)) rs ds"
  shows "\<exists>acc'. store_loop self rs (length h0) (grown h0 acc)
            = (case score_loop sa ds acc of Inl e \<Rightarrow> Some e | Inr _ \<Rightarrow> None, grown h0 acc')
          \<and> (\<forall>out. score_loop sa ds acc = Inr out \<longrightarrow> acc' = out)"
  using assms(2)
proof (induction rs ds arbitrary: acc rule: list_all2_induct)
  case Nil
  then show ?case by simp
next
  case (Cons r rs d ds)
  note it = store_iteration_run [OF assms(1) Cons.hyps(1), of acc]
  show ?case
  proof (cases "score_result sa d")
    case (Inl e)
    with it show ?thesis by (intro exI [of _ acc]) simp
  next
    case (Inr so)
    show ?thesis
    proof (cases so)
      case None
      with Inr it Cons.IH [of acc] show ?thesis by simp
    next
      case (Some s)
      with Inr it Cons.IH [of "acc @ [s]"] show ?thesis by simp
    qed
  qed
qed

lemma insort_key_map: "insort_key k (f x) (map f ys) = map f (insort_key (\<lambda>y. k (f y)) x ys)"
  by (induction ys) simp_all

lemma sort_key_map: "sort_key k (map f xs) = map f (sort_key (\<lambda>y. k (f y)) xs)"
  by (induction xs) (simp_all add: insort_key_map)

lemma sort_reverse_map: "sort_reverse k (map f xs) = map f (sort_reverse (\<lambda>y. k (f y)) xs)"
  by (simp add: sort_reverse_def rev_map sort_key_map)

lemma length_sort_reverse: "length (sort_reverse k xs) = length xs"
  by (simp add: sort_reverse_def)

lemma decorated_sort:
  "map snd (sort_reverse fst (zip (map k xs) xs)) = sort_reverse k xs"
proof -
  have "zip (map k xs) xs = map (\<lambda>x. (k x, x)) xs"
    by (induction xs) simp_all
  then show ?thesis
    by (simp add: sort_reverse_map comp_def)
qed

lemma length_addrs_from: "length (addrs_from b n) = n"
  by (simp add: addrs_from_def)

lemma nth_addrs_from: "i < n \<Longrightarrow> addrs_from b n ! i = b + i"
  by (simp add: addrs_from_def)

lemma in_addrs_from: "a \<in> set (addrs_from b n) \<longleftrightarrow> b \<le> a \<and> a < b + n"
  by (simp add: addrs_from_def)

lemma confidence_keys_scored:
  "map (object_at h) xs = map (\<lambda>s. Some (ScoredDict s)) ss
     \<Longrightarrow> confidence_keys h xs = Inr (map confidence ss)"
  by (induction xs arbitrary: ss) (auto simp: confidence_key_def)

lemma object_at_new:
  "i < length acc \<Longrightarrow>
     object_at (h0 @ ListObj outs # map ScoredDict acc) (Suc (length h0) + i)
       = Some (ScoredDict (acc ! i))"
  by (simp add: object_at_def nth_append)

lemma map_object_at_new:
  "map (object_at (h0 @ ListObj outs # map ScoredDict acc))
       (addrs_from (Suc (length h0)) (length acc))
     = map (\<lambda>s. Some (ScoredDict s)) acc"
proof (rule nth_equalityI)
  show "length (map (object_at (h0 @ ListObj outs # map ScoredDict acc))
       (addrs_from (Suc (length h0)) (length acc))) = length (map (\<lambda>s. Some (ScoredDict s)) acc)"
    by (simp add: length_addrs_from)
next
  fix i
  assume "i < length (map (object_at (h0 @ ListObj outs # map ScoredDict acc))
       (addrs_from (Suc (length h0)) (length acc)))"
  then have i: "i < length acc" by (simp add: length_addrs_from)
  then show "map (object_at (h0 @ ListObj outs # map ScoredDict acc))
       (addrs_from (Suc (length h0)) (length acc)) ! i = map (\<lambda>s. Some (ScoredDict s)) acc ! i"
    using object_at_new [OF i, of h0 outs]
    by (simp add: length_addrs_from nth_addrs_from)
qed

lemma map_nth_addrs:
  "map (\<lambda>a. acc ! (a - b)) (addrs_from b (length acc)) = acc"
  by (rule nth_equalityI) (simp_all add: length_addrs_from nth_addrs_from)

lemma list_sort_confidence_grown:
  "list_sort_confidence (length h0) (grown h0 acc) =
     Inr (h0 @ ListObj (sort_reverse (\<lambda>a. confidence (acc ! (a - Suc (length h0))))
                          (addrs_from (Suc (length h0)) (length acc)))
             # map ScoredDict acc)"
proof -
  let ?xs = "addrs_from (Suc (length h0)) (length acc)"
  let ?k = "\<lambda>a. confidence (acc ! (a - Suc (length h0)))"
  have keys: "confidence_keys (grown h0 acc) ?xs = Inr (map confidence acc)"
    unfolding grown_def by (intro confidence_keys_scored map_object_at_new)
  have "map ?k ?xs = map confidence (map (\<lambda>a. acc ! (a - Suc (length h0))) ?xs)"
    by (simp add: comp_def)
  then have "map confidence acc = map ?k ?xs"
    by (simp only: map_nth_addrs)
  then have "map snd (sort_reverse fst (zip (map confidence acc) ?xs)) = sort_reverse ?k ?xs"
    by (simp add: decorated_sort)
  with keys show ?thesis
    unfolding list_sort_confidence_def
    using object_at_grown_list [of h0 acc "[]"]
    by (simp add: grown_def)
qed

lemma sorted_addresses_contents:
  fixes h0 :: store and acc :: "scored list"
  defines "outs \<equiv> sort_reverse (\<lambda>a. confidence (acc ! (a - Suc (length h0))))
                          (addrs_from (Suc (length h0)) (length acc))"
  shows "map (object_at (h0 @ ListObj outs # map ScoredDict acc)) outs
           = map (\<lambda>s. Some (ScoredDict s)) (sort_reverse confidence acc)"
    and "set outs = set (addrs_from (Suc (length h0)) (length acc))"
    and "length outs = length acc"
proof -
  let ?xs = "addrs_from (Suc (length h0)) (length acc)"
  let ?f = "\<lambda>a. acc ! (a - Suc (length h0))"
  let ?h = "h0 @ ListObj outs # map ScoredDict acc"
  show s: "set outs = set (addrs_from (Suc (length h0)) (length acc))"
    by (simp add: outs_def set_sort_reverse)
  show "length outs = length acc"
    by (simp add: outs_def length_sort_reverse length_addrs_from)
  have "object_at ?h a = Some (ScoredDict (?f a))" if "a \<in> set outs" for a
  proof -
    from that s have "Suc (length h0) \<le> a" "a < Suc (length h0) + length acc"
      by (simp_all add: in_addrs_from)
    then obtain i where "a = Suc (length h0) + i" "i < length acc"
      by (auto simp: le_iff_add)
    then show ?thesis using object_at_new [of i acc h0 outs] by simp
  qed
  then have "map (object_at ?h) outs = map (\<lambda>s. Some (ScoredDict s)) (map ?f outs)"
    by simp
  also have "map ?f outs = sort_reverse confidence (map ?f ?xs)"
    unfolding outs_def by (simp add: sort_reverse_map)
  also have "map ?f ?xs = acc" by (rule map_nth_addrs)
  finally show "map (object_at ?h) outs = map (\<lambda>s. Some (ScoredDict s)) (sort_reverse confidence acc)" .
qed

lemma grown_Nil: "(h :: store) @ [ListObj []] = grown h []"
  by (simp add: grown_def addrs_from_def)

lemma process_search_results_store_run:
  assumes self: "object_at h self = Some (Instance sa)"
    and results: "object_at h results = Some (ListObj rs)"
    and dicts: "list_all2 (\<lambda>r d. object_at h r = Some (RawDict d)) rs ds"
  shows "\<exists>outs acc.
           snd (process_search_results_store self results h) = h @ ListObj outs # map ScoredDict acc
         \<and> (case process_search_results sa ds of
               Inl e \<Rightarrow> fst (process_search_results_store self results h) = Inl e
             | Inr out \<Rightarrow>
                 fst (process_search_results_store self results h) = Inr (length h)
                 \<and> set outs = set (addrs_from (Suc (length h)) (length acc))
                 \<and> length outs = length out
                 \<and> map (object_at (h @ ListObj outs # map ScoredDict acc)) outs
                     = map (\<lambda>s. Some (ScoredDict s)) out)"
proof (cases "rs = []")
  case True
  with dicts have "ds = []" by simp
  with True results show ?thesis
    unfolding process_search_results_store_def new_object_def
    by (intro exI [of _ "[]"]) (simp add: object_at_old process_search_results_def addrs_from_def)
next
  case False
  with dicts have ds: "ds \<noteq> []" by auto
  from store_loop_run [OF self dicts, of "[]"] obtain acc where
    loop: "store_loop self rs (length h) (grown h [])
            = (case score_loop sa ds [] of Inl e \<Rightarrow> Some e | Inr _ \<Rightarrow> None, grown h acc)"
    and acc: "\<forall>out. score_loop sa ds [] = Inr out \<longrightarrow> acc = out"
    by blast
  have res1: "object_at (grown h []) results = Some (ListObj rs)"
    unfolding grown_def using results by (rule object_at_old)
  show ?thesis
  proof (cases "score_loop sa ds []")
    case (Inl e)
    with loop False res1 have
      "process_search_results_store self results h = (Inl e, grown h acc)"
      unfolding process_search_results_store_def new_object_def
      by (simp add: grown_Nil)
    with Inl ds show ?thesis
      by (intro exI [of _ "addrs_from (Suc (length h)) (length acc)"] exI [of _ acc])
         (simp add: grown_def process_search_results_def)
  next
    case (Inr out0)
    with acc have a: "acc = out0" by simp
    let ?outs = "sort_reverse (\<lambda>a. confidence (acc ! (a - Suc (length h))))
                   (addrs_from (Suc (length h)) (length acc))"
    from Inr loop False res1 list_sort_confidence_grown [of h acc] have
      "process_search_results_store self results h
         = (Inr (length h), h @ ListObj ?outs # map ScoredDict acc)"
      unfolding process_search_results_store_def new_object_def
      by (simp add: grown_Nil)
    moreover from Inr ds a have "process_search_results sa ds = Inr (sort_reverse confidence acc)"
      by (simp add: process_search_results_def)
    ultimately show ?thesis
      using sorted_addresses_contents [where ?h0.0 = h and acc = acc]
      by (intro exI [of _ ?outs] exI [of _ acc]) (simp add: length_sort_reverse)
  qed
qed

lemma scored_url_from_input:
  assumes "process_search_results sa ds = Inr out" and "s \<in> set out"
  shows "\<exists>d\<in>set ds. d ''url'' = Some (PyStr (url s))"
proof -
  from process_search_results_member [OF assms] obtain d sc where
    "d \<in> set ds" "compute_scores sa d = Inr sc" "s = scored_of sc" by blast
  then show ?thesis
    unfolding compute_scores_Inr_iff by (auto simp: scored_of_def)
qed

lemma length_process_search_results:
  assumes "process_search_results sa ds = Inr out"
  shows "length out \<le> length ds"
proof -
  from process_search_results_Inr [OF assms] obtain ss where
    ss: "map (compute_scores sa) ds = map Inr ss"
    and out: "out = sort_reverse confidence (map scored_of (filter (keeps sa) ss))"
    by blast
  from ss have "length ss = length ds" by (metis length_map)
  moreover have "length out \<le> length ss"
    unfolding out by (simp add: length_sort_reverse)
  ultimately show ?thesis by simp
qed

section \<open>Properties\<close>

text \<open>
  C7. Applied to the empty list, \<^verbatim>\<open>process_search_results\<close> returns the empty list
  and raises no error, whatever the fields of the \<^verbatim>\<open>SearchAction\<close> object are. On
  the store, a call whose \<open>results\<close> is an empty list returns the address of a new
  empty list and writes nothing else.
\<close>

theorem process_search_results_empty:
  "process_search_results self [] = Inr []
   \<and> (object_at h results = Some (ListObj [])
        \<longrightarrow> process_search_results_store slf results h = (Inr (length h), h @ [ListObj []]))"
proof -
  have "process_search_results_store slf results h = (Inr (length h), h @ [ListObj []])"
    if "object_at h results = Some (ListObj [])"
    using object_at_old [OF that, of "[ListObj []]"]
    by (simp add: process_search_results_store_def new_object_def)
  then show ?thesis
    by (simp add: process_search_results_def)
qed

text \<open>A store that holds an empty list only.\<close>

theorem process_search_results_empty_witness:
  "process_search_results SearchAction_init [] = Inr []
   \<and> object_at [ListObj []] 0 = Some (ListObj [])
   \<and> process_search_results_store 1 0 [ListObj []] = (Inr 1, [ListObj [], ListObj []])"
proof -
  have h: "object_at [ListObj []] 0 = Some (ListObj [])"
    by (simp add: object_at_def)
  from process_search_results_empty [of SearchAction_init "[ListObj []]" 0 1] h
  show ?thesis by simp
qed

text \<open>
  C1 (as amended). A query term that is equal to a URL term is also contained in it,
  so it is counted by \<open>exact_matches\<close> and again by \<open>partial_matches\<close>: the exact
  matches are at most the partial matches, which are at most the number of query
  terms. Hence the term match score \<open>(exact_matches + 0.5 * partial_matches) / |query_terms|\<close>
  is never an error and lies between 0 and 1.5, and so does the \<^verbatim>\<open>term_score\<close> field
  of every scored result that \<^verbatim>\<open>process_search_results\<close> returns.
\<close>

theorem term_score_bounded:
  "(process_search_results self results = Inr out \<longrightarrow>
      (\<forall>s\<in>set out. 0 \<le> term_score s \<and> term_score s \<le> 3 / 2))
   \<and> (\<exists>t. term_match_score Q U = Inr t \<and> 0 \<le> t \<and> t \<le> 3 / 2)
   \<and> 0 \<le> exact_matches Q U \<and> exact_matches Q U \<le> partial_matches Q U
   \<and> partial_matches Q U \<le> int (length Q)"
proof -
  have "0 \<le> term_score s \<and> term_score s \<le> 3 / 2"
    if "process_search_results self results = Inr out" and "s \<in> set out" for s
  proof -
    from process_search_results_member [OF that] obtain r sc where
      sc: "compute_scores self r = Inr sc" "s = scored_of sc" by blast
    from compute_scores_term_match [OF sc(1)]
    have "py_round 0 3 \<le> py_round (sc_term_match sc) 3"
      and "py_round (sc_term_match sc) 3 \<le> py_round (3 / 2) 3"
      by (simp_all add: py_round_mono)
    with sc(2) show ?thesis
      by (simp add: scored_of_def py_round_0 py_round_3_2)
  qed
  then show ?thesis
    using term_match_score_total [of Q U] exact_matches_nonneg [of Q U]
      exact_le_partial [of Q U] partial_le_length [of Q U]
    by blast
qed

text \<open>
  The bound 1 of C1 as stated fails: for the query \<^verbatim>\<open>a\<close>, the url \<^verbatim>\<open>a\<close> and the
  distance 0 the one query term is an exact and a partial match, the term match
  score is \<open>(1 + 0.5) / 1\<close> and the scored result has \<^verbatim>\<open>term_score\<close> 1.5.
\<close>

theorem term_score_exceeds_one:
  "process_search_results SearchAction_init
     [[''distance'' \<mapsto> PyFloat 0, ''query'' \<mapsto> PyStr ''a'', ''url'' \<mapsto> PyStr ''a'']]
   = Inr [\<lparr>url = ''a'', confidence = 1, semantic_score = 1, term_score = 3 / 2,
           highlight_instructions =
             \<lparr>hl_method = ''semantic_highlight'', confidence_threshold = 1\<rparr>\<rparr>]
   \<and> term_match_score [''a''] [''a''] = Inr (3 / 2)"
  by code_simp

text \<open>The amended bound at a run where one of two query terms matches exactly and
  both match partially.\<close>

theorem term_score_bounded_witness:
  "process_search_results SearchAction_init
     [[''distance'' \<mapsto> PyFloat 0, ''query'' \<mapsto> PyStr ''a b'', ''url'' \<mapsto> PyStr ''a/bc'']]
   = Inr [\<lparr>url = ''a/bc'', confidence = 1, semantic_score = 1, term_score = 1,
           highlight_instructions =
             \<lparr>hl_method = ''semantic_highlight'', confidence_threshold = 1\<rparr>\<rparr>]
   \<and> (0::real) \<le> 1 \<and> (1::real) \<le> 3 / 2"
proof -
  let ?r = "[''distance'' \<mapsto> PyFloat 0, ''query'' \<mapsto> PyStr ''a b'', ''url'' \<mapsto> PyStr ''a/bc'']"
  let ?s = "\<lparr>url = ''a/bc'', confidence = 1, semantic_score = 1, term_score = 1,
           highlight_instructions =
             \<lparr>hl_method = ''semantic_highlight'', confidence_threshold = 1\<rparr>\<rparr>"
  have run: "process_search_results SearchAction_init [?r] = Inr [?s]"
    by code_simp
  from term_score_bounded [of SearchAction_init "[?r]" "[?s]" "[]" "[]"] run
  have "0 \<le> term_score ?s \<and> term_score ?s \<le> 3 / 2" by simp
  with run show ?thesis by simp
qed

text \<open>
  C2. Whenever \<^verbatim>\<open>process_search_results\<close> of a \<^verbatim>\<open>SearchAction\<close> as \<^verbatim>\<open>__init__\<close>
  builds it returns a list, the list is in descending order of the \<^verbatim>\<open>confidence\<close>
  field, every element has \<^verbatim>\<open>confidence\<close> at least 0.4, and the elements are
  exactly the scored records of the inputs whose computed confidence is at least
  0.4 (one for each such input): an input whose computed confidence is below 0.4
  has no element in the output.
\<close>

theorem process_search_results_sorted_thresholded:
  assumes "process_search_results SearchAction_init results = Inr out"
  shows "sorted_wrt (\<lambda>a b. confidence b \<le> confidence a) out
     \<and> (\<forall>s\<in>set out. 0.4 \<le> confidence s)
     \<and> (\<exists>ss. map (compute_scores SearchAction_init) results = map Inr ss
           \<and> mset out = mset (map scored_of (filter (\<lambda>sc. 0.4 \<le> sc_confidence sc) ss)))"
proof -
  from process_search_results_Inr [OF assms] obtain ss where
    ss: "map (compute_scores SearchAction_init) results = map Inr ss"
    and out: "out = sort_reverse confidence
                (map scored_of (filter (keeps SearchAction_init) ss))"
    by blast
  have k: "keeps SearchAction_init = (\<lambda>sc. 0.4 \<le> sc_confidence sc)"
    by (simp add: keeps_def SearchAction_init_def fun_eq_iff)
  have "sorted_wrt (\<lambda>a b. confidence b \<le> confidence a) out"
    unfolding out by (rule sorted_sort_reverse)
  moreover have "0.4 \<le> confidence s" if "s \<in> set out" for s
  proof -
    from that out k obtain sc where sc: "s = scored_of sc" "0.4 \<le> sc_confidence sc"
      by (auto simp: set_sort_reverse)
    from sc(2) have "py_round (2 / 5) 3 \<le> py_round (sc_confidence sc) 3"
      by (intro py_round_mono) simp
    with sc(1) show ?thesis by (simp add: scored_of_def py_round_2_5)
  qed
  moreover have "mset out = mset (map scored_of (filter (\<lambda>sc. 0.4 \<le> sc_confidence sc) ss))"
    unfolding out k by (rule mset_sort_reverse)
  ultimately show ?thesis using ss by blast
qed

text \<open>Three inputs, given in the order middle, low, high: the low one (confidence
  0.175) is dropped and the two others are returned with the high one first.\<close>

theorem process_search_results_sorted_thresholded_witness:
  "process_search_results SearchAction_init
     [[''distance'' \<mapsto> PyFloat (1 / 2), ''query'' \<mapsto> PyStr ''x'', ''url'' \<mapsto> PyStr ''y''],
      [''distance'' \<mapsto> PyFloat 3, ''query'' \<mapsto> PyStr ''a'', ''url'' \<mapsto> PyStr ''b''],
      [''distance'' \<mapsto> PyFloat 0, ''query'' \<mapsto> PyStr ''a'', ''url'' \<mapsto> PyStr ''a'']]
   = Inr [\<lparr>url = ''a'', confidence = 1, semantic_score = 1, term_score = 3 / 2,
            highlight_instructions =
              \<lparr>hl_method = ''semantic_highlight'', confidence_threshold = 1\<rparr>\<rparr>,
          \<lparr>url = ''y'', confidence = 467 / 1000, semantic_score = 667 / 1000, term_score = 0,
            highlight_instructions =
              \<lparr>hl_method = ''semantic_highlight'', confidence_threshold = 7 / 15\<rparr>\<rparr>]
   \<and> (467 / 1000 :: real) \<le> 1 \<and> (0.4 :: real) \<le> 467 / 1000"
proof -
  let ?rs = "[[''distance'' \<mapsto> PyFloat (1 / 2), ''query'' \<mapsto> PyStr ''x'', ''url'' \<mapsto> PyStr ''y''],
      [''distance'' \<mapsto> PyFloat 3, ''query'' \<mapsto> PyStr ''a'', ''url'' \<mapsto> PyStr ''b''],
      [''distance'' \<mapsto> PyFloat 0, ''query'' \<mapsto> PyStr ''a'', ''url'' \<mapsto> PyStr ''a'']]"
  let ?hi = "\<lparr>url = ''a'', confidence = 1, semantic_score = 1, term_score = 3 / 2,
            highlight_instructions =
              \<lparr>hl_method = ''semantic_highlight'', confidence_threshold = 1\<rparr>\<rparr>"
  let ?mid = "\<lparr>url = ''y'', confidence = 467 / 1000, semantic_score = 667 / 1000, term_score = 0,
            highlight_instructions =
              \<lparr>hl_method = ''semantic_highlight'', confidence_threshold = 7 / 15\<rparr>\<rparr>"
  have run: "process_search_results SearchAction_init ?rs = Inr [?hi, ?mid]"
    by code_simp
  from process_search_results_sorted_thresholded [OF run]
  have "confidence ?mid \<le> confidence ?hi \<and> 0.4 \<le> confidence ?mid" by simp
  with run show ?thesis by simp
qed








text \<open>
  C8. When the query is empty or has whitespace characters only, the set of query
  terms is empty and the term match score is 0: the division of line 29 is not
  evaluated. For a record with such a query, every scored iteration has term match
  score 0; the iteration is scored whenever the record has its keys with values of
  their types; and a \<^verbatim>\<open>ZeroDivisionError\<close> can only come from line 17, at distance
  \<open>-1\<close>.
\<close>

theorem empty_query_term_match_zero:
  assumes "\<forall>c\<in>set q. isspace c"
  shows "query_terms_of (PyStr q) = Inr [] \<and> term_match_score [] U = Inr 0
     \<and> (result ''query'' = Some (PyStr q) \<longrightarrow>
          (\<forall>sc. compute_scores self result = Inr sc \<longrightarrow> sc_term_match sc = 0)
          \<and> (compute_scores self result = Inl ZeroDivisionError
               \<longrightarrow> result ''distance'' = Some (PyFloat (- 1)))
          \<and> (well_typed result \<and> has_keys result
               \<longrightarrow> (\<exists>sc. compute_scores self result = Inr sc \<and> sc_term_match sc = 0)))"
proof -
  from assms have Q: "query_terms_of (PyStr q) = Inr []"
    by (simp add: query_terms_of_def str_lower_def split_ws_lower_spaces py_set_def)
  have Z: "term_match_score [] U = Inr 0" for U
    by (simp add: term_match_score_def)
  have T: "sc_term_match sc = 0"
    if "result ''query'' = Some (PyStr q)" "compute_scores self result = Inr sc" for sc
    using that assms unfolding compute_scores_Inr_iff
    by (auto simp: split_ws_lower_spaces py_set_def term_match_score_def)
  from Q Z T compute_scores_zero_division [of self result]
    well_typed_compute_scores [of result self]
  show ?thesis by blast
qed

text \<open>The query of one space.\<close>

theorem empty_query_term_match_zero_witness:
  "query_terms_of (PyStr '' '') = Inr [] \<and> term_match_score [] [''x''] = Inr 0
   \<and> compute_scores SearchAction_init
        [''distance'' \<mapsto> PyFloat 0, ''query'' \<mapsto> PyStr '' '', ''url'' \<mapsto> PyStr ''x'']
      = Inr \<lparr>sc_url = ''x'', sc_semantic = 1, sc_term_match = 0, sc_confidence = 7 / 10\<rparr>"
proof -
  let ?r = "[''distance'' \<mapsto> PyFloat 0, ''query'' \<mapsto> PyStr '' '', ''url'' \<mapsto> PyStr ''x'']"
  have sp: "\<forall>c\<in>set '' ''. isspace c" by (simp add: isspace_def)
  have c: "compute_scores SearchAction_init ?r
      = Inr \<lparr>sc_url = ''x'', sc_semantic = 1, sc_term_match = 0, sc_confidence = 7 / 10\<rparr>"
    by code_simp
  from empty_query_term_match_zero [OF sp, of "[''x'']" ?r SearchAction_init] c
  show ?thesis by simp
qed





text \<open>
  C10. A call of \<^verbatim>\<open>process_search_results\<close> writes no object that exists before
  the call: every address of the store holds after the call the object it held
  before, whether the call returns or raises. In particular, when \<open>self\<close> is a
  \<^verbatim>\<open>SearchAction\<close> object and \<open>results\<close> a list of dicts, the object \<open>self\<close> with its
  three fields, the list \<open>results\<close> and every dict in it are unchanged. When such a
  call returns, it returns a list that did not exist before; the elements of this
  list are dicts that did not exist before either; they are the scored results that
  the function computes from the input dicts; the \<^verbatim>\<open>url\<close> of each is the \<^verbatim>\<open>url\<close>
  of some input dict; and the list is not longer than the input list.
\<close>

theorem process_search_results_store_effects:
  assumes run: "process_search_results_store self results h = (res, h')"
  shows "(\<forall>a<length h. object_at h' a = object_at h a)
     \<and> (object_at h self = Some (Instance sa) \<and> object_at h results = Some (ListObj rs)
          \<and> list_all2 (\<lambda>r d. object_at h r = Some (RawDict d)) rs ds
        \<longrightarrow> object_at h' self = Some (Instance sa) \<and> object_at h' results = Some (ListObj rs)
          \<and> list_all2 (\<lambda>r d. object_at h' r = Some (RawDict d)) rs ds
          \<and> (\<forall>outp. res = Inr outp \<longrightarrow>
                outp = length h
                \<and> (\<exists>outs out. object_at h' outp = Some (ListObj outs)
                      \<and> process_search_results sa ds = Inr out
                      \<and> map (object_at h') outs = map (\<lambda>s. Some (ScoredDict s)) out
                      \<and> length outs \<le> length rs
                      \<and> (\<forall>a\<in>set outs. length h < a)
                      \<and> (\<forall>s\<in>set out. \<exists>d\<in>set ds. d ''url'' = Some (PyStr (url s))))))"
proof -
  from process_search_results_store_frame [OF run] have frame: "take (length h) h' = h" .
  have old: "object_at h' a = object_at h a" if "a < length h" for a
  proof -
    from frame have "length h \<le> length h'"
      by (metis length_take min.cobounded2 min.commute)
    moreover from that have "take (length h) h' ! a = h' ! a" by simp
    ultimately show ?thesis using that frame by (simp add: object_at_def)
  qed
  have keep: "object_at h' a = Some ob" if "object_at h a = Some ob" for a ob
    using that old [of a] by (auto simp: object_at_def split: if_splits)
  have wf: "object_at h' self = Some (Instance sa) \<and> object_at h' results = Some (ListObj rs)
          \<and> list_all2 (\<lambda>r d. object_at h' r = Some (RawDict d)) rs ds
          \<and> (\<forall>outp. res = Inr outp \<longrightarrow>
                outp = length h
                \<and> (\<exists>outs out. object_at h' outp = Some (ListObj outs)
                      \<and> process_search_results sa ds = Inr out
                      \<and> map (object_at h') outs = map (\<lambda>s. Some (ScoredDict s)) out
                      \<and> length outs \<le> length rs
                      \<and> (\<forall>a\<in>set outs. length h < a)
                      \<and> (\<forall>s\<in>set out. \<exists>d\<in>set ds. d ''url'' = Some (PyStr (url s)))))"
    if self: "object_at h self = Some (Instance sa)"
      and results: "object_at h results = Some (ListObj rs)"
      and dicts: "list_all2 (\<lambda>r d. object_at h r = Some (RawDict d)) rs ds"
  proof -
    from dicts have d': "list_all2 (\<lambda>r d. object_at h' r = Some (RawDict d)) rs ds"
      by (rule list_all2_mono) (rule keep)
    from process_search_results_store_run [OF self results dicts]
    obtain outs acc where
      s: "snd (process_search_results_store self results h) = h @ ListObj outs # map ScoredDict acc"
      and c0: "case process_search_results sa ds of
               Inl e \<Rightarrow> fst (process_search_results_store self results h) = Inl e
             | Inr out \<Rightarrow>
                 fst (process_search_results_store self results h) = Inr (length h)
                 \<and> set outs = set (addrs_from (Suc (length h)) (length acc))
                 \<and> length outs = length out
                 \<and> map (object_at (h @ ListObj outs # map ScoredDict acc)) outs
                     = map (\<lambda>s. Some (ScoredDict s)) out"
      by blast
    from s run have h': "h' = h @ ListObj outs # map ScoredDict acc" by simp
    from c0 run h' have c: "case process_search_results sa ds of
               Inl e \<Rightarrow> res = Inl e
             | Inr out \<Rightarrow> res = Inr (length h)
                 \<and> set outs = set (addrs_from (Suc (length h)) (length acc))
                 \<and> length outs = length out
                 \<and> map (object_at h') outs = map (\<lambda>s. Some (ScoredDict s)) out"
      by (auto split: sum.splits)
    have "outp = length h
                \<and> (\<exists>outs out. object_at h' outp = Some (ListObj outs)
                      \<and> process_search_results sa ds = Inr out
                      \<and> map (object_at h') outs = map (\<lambda>s. Some (ScoredDict s)) out
                      \<and> length outs \<le> length rs
                      \<and> (\<forall>a\<in>set outs. length h < a)
                      \<and> (\<forall>s\<in>set out. \<exists>d\<in>set ds. d ''url'' = Some (PyStr (url s))))"
      if "res = Inr outp" for outp
    proof -
      from that c obtain out where out: "process_search_results sa ds = Inr out"
        and o: "outp = length h" "set outs = set (addrs_from (Suc (length h)) (length acc))"
          "length outs = length out"
          "map (object_at h') outs = map (\<lambda>s. Some (ScoredDict s)) out"
        by (cases "process_search_results sa ds") auto
      have 1: "object_at h' outp = Some (ListObj outs)"
        unfolding h' o(1) by (simp add: object_at_def)
      from length_process_search_results [OF out] dicts o(3)
      have 2: "length outs \<le> length rs"
        by (simp add: list_all2_lengthD)
      from o(2) have 3: "\<forall>a\<in>set outs. length h < a"
        by (simp add: in_addrs_from)
      from scored_url_from_input [OF out]
      have 4: "\<forall>s\<in>set out. \<exists>d\<in>set ds. d ''url'' = Some (PyStr (url s))" by blast
      from o(1) 1 out o(4) 2 3 4 show ?thesis by blast
    qed
    with keep [OF self] keep [OF results] d' show ?thesis by blast
  qed
  from old wf show ?thesis by blast
qed

text \<open>A store with a \<^verbatim>\<open>SearchAction\<close> object, a list of three raw results and
  these results: the call adds the new list and two dicts, and the new list holds
  them in descending order of confidence.\<close>

theorem process_search_results_store_effects_witness:
  "process_search_results_store 0 1
     [Instance SearchAction_init, ListObj [2, 3, 4],
      RawDict [''distance'' \<mapsto> PyFloat (1 / 2), ''query'' \<mapsto> PyStr ''x'', ''url'' \<mapsto> PyStr ''y''],
      RawDict [''distance'' \<mapsto> PyFloat 3, ''query'' \<mapsto> PyStr ''a'', ''url'' \<mapsto> PyStr ''b''],
      RawDict [''distance'' \<mapsto> PyFloat 0, ''query'' \<mapsto> PyStr ''a'', ''url'' \<mapsto> PyStr ''a'']]
   = (Inr 5,
      [Instance SearchAction_init, ListObj [2, 3, 4],
       RawDict [''distance'' \<mapsto> PyFloat (1 / 2), ''query'' \<mapsto> PyStr ''x'', ''url'' \<mapsto> PyStr ''y''],
       RawDict [''distance'' \<mapsto> PyFloat 3, ''query'' \<mapsto> PyStr ''a'', ''url'' \<mapsto> PyStr ''b''],
       RawDict [''distance'' \<mapsto> PyFloat 0, ''query'' \<mapsto> PyStr ''a'', ''url'' \<mapsto> PyStr ''a''],
       ListObj [7, 6],
       ScoredDict \<lparr>url = ''y'', confidence = 467 / 1000, semantic_score = 667 / 1000,
         term_score = 0,
         highlight_instructions =
           \<lparr>hl_method = ''semantic_highlight'', confidence_threshold = 7 / 15\<rparr>\<rparr>,
       ScoredDict \<lparr>url = ''a'', confidence = 1, semantic_score = 1, term_score = 3 / 2,
         highlight_instructions =
           \<lparr>hl_method = ''semantic_highlight'', confidence_threshold = 1\<rparr>\<rparr>])
   \<and> length [7::nat, 6] \<le> length [2::nat, 3, 4] \<and> (5::nat) < 7 \<and> (5::nat) < 6"
proof -
  let ?d1 = "[''distance'' \<mapsto> PyFloat (1 / 2), ''query'' \<mapsto> PyStr ''x'', ''url'' \<mapsto> PyStr ''y'']"
  let ?d2 = "[''distance'' \<mapsto> PyFloat 3, ''query'' \<mapsto> PyStr ''a'', ''url'' \<mapsto> PyStr ''b'']"
  let ?d3 = "[''distance'' \<mapsto> PyFloat 0, ''query'' \<mapsto> PyStr ''a'', ''url'' \<mapsto> PyStr ''a'']"
  let ?sy = "\<lparr>url = ''y'', confidence = 467 / 1000, semantic_score = 667 / 1000,
         term_score = 0,
         highlight_instructions =
           \<lparr>hl_method = ''semantic_highlight'', confidence_threshold = 7 / 15\<rparr>\<rparr>"
  let ?sa = "\<lparr>url = ''a'', confidence = 1, semantic_score = 1, term_score = 3 / 2,
         highlight_instructions =
           \<lparr>hl_method = ''semantic_highlight'', confidence_threshold = 1\<rparr>\<rparr>"
  let ?H = "[Instance SearchAction_init, ListObj [2, 3, 4], RawDict ?d1, RawDict ?d2, RawDict ?d3]"
  let ?H' = "?H @ [ListObj [7, 6], ScoredDict ?sy, ScoredDict ?sa]"
  have r1: "read_scores ?d1 = Inr (''y'', 2 / 3, 0)" by code_simp
  have r2: "read_scores ?d2 = Inr (''b'', 1 / 4, 0)" by code_simp
  have r3: "read_scores ?d3 = Inr (''a'', 1, 3 / 2)" by code_simp
  have s1: "score_result SearchAction_init ?d1 = Inr (Some ?sy)" by code_simp
  have s2: "score_result SearchAction_init ?d2 = Inr None" by code_simp
  have s3: "score_result SearchAction_init ?d3 = Inr (Some ?sa)" by code_simp
  have run: "process_search_results_store 0 1 ?H = (Inr 5, ?H')"
    by (simp add: process_search_results_store_def new_object_def object_at_def
          store_iteration_def list_append_def list_sort_confidence_def confidence_key_def
          sort_reverse_def r1 r2 r3 s1 s2 s3)
  have wf: "object_at ?H 0 = Some (Instance SearchAction_init)"
    "object_at ?H 1 = Some (ListObj [2, 3, 4])"
    "list_all2 (\<lambda>r d. object_at ?H r = Some (RawDict d)) [2, 3, 4] [?d1, ?d2, ?d3]"
    by (simp_all add: object_at_def)
  from process_search_results_store_effects
         [OF run, of SearchAction_init "[2, 3, 4]" "[?d1, ?d2, ?d3]"] wf
  obtain outs where "object_at ?H' 5 = Some (ListObj outs)"
    "length outs \<le> length [2::nat, 3, 4]" "\<forall>a\<in>set outs. length ?H < a"
    by auto
  with run show ?thesis by (simp add: object_at_def)
qed

end
